theory Spec2Isabelle
  imports Complex_Main "HOL-Library.Sublist"
begin

section \<open>The image annotator: data model\<close>

text \<open>
  The development follows \<^verbatim>\<open>src/components/ImageAnnotator.tsx\<close>, in the revision
  that opens a popup next to the pin (the second \<^verbatim>\<open>ImageAnnotator\<close> of the file, the one
  with \<^verbatim>\<open>popupPosition\<close> and \<^verbatim>\<open>lastMousePosRef\<close>); the first revision in the same
  file creates, saves, cancels and highlights by the same expressions, behind a modal
  dialog. Every hook of the component is a field of the record \<open>state\<close>; every handler
  is a function from the state of the latest render to the next state, React rendering
  again between two user events.

  Conventions of the embedding:
  \<^item> the fields of the interface \<^verbatim>\<open>Annotation\<close> carry the prefix \<open>ann_\<close>
    (\<^verbatim>\<open>id\<close> is the identity function of HOL, \<^verbatim>\<open>text\<close> a keyword);
  \<^item> a finite JavaScript number is the real number it denotes; the result of an
    arithmetic operation of \<^verbatim>\<open>handleImageClick\<close> is a \<open>jsnum\<close>: the exact result rounded
    as IEEE 754 binary64 rounds it (to nearest, ties to even, with subnormal numbers and
    overflow to an infinity), or the infinity or NaN that a division by zero gives. The
    two zeros are one value: the component only prints a coordinate, and both print
    alike. The difference of two pointer positions in \<^verbatim>\<open>handleMouseMove\<close> is taken
    exact, as it is for positions in whole pixels;
  \<^item> \<^verbatim>\<open>new Date()\<close> is the argument \<open>now\<close> of the handler, in milliseconds;
  \<^item> \<^verbatim>\<open>imageRef.current\<close> is the argument \<open>img\<close>: \<open>None\<close> for \<^verbatim>\<open>null\<close>, otherwise
    the rectangle that \<^verbatim>\<open>getBoundingClientRect()\<close> returns at that moment;
  \<^item> \<^verbatim>\<open>setTimeout\<close> is a list of pending due times, read against a clock that only
    the passing of time advances.
\<close>

datatype jsnum = Num real | PInf | NInf | NaN

subsection \<open>Double-precision arithmetic\<close>

text \<open>
  \<open>pow2 e\<close> is the power of two with the integer exponent \<open>e\<close>.
\<close>

definition pow2 :: "int \<Rightarrow> real" where
  "pow2 e = (if 0 \<le> e then 2 ^ nat e else 1 / 2 ^ nat (- e))"

text \<open>
  The binade of a number other than zero: the exponent \<open>k\<close> with
  \<open>2^k \<le> |x| < 2^(k+1)\<close>, found by halving or doubling. It is not taken below -1022,
  where the subnormal numbers share one spacing, and the search stops at 1024, beyond
  the largest finite double.
\<close>

function expUp :: "real \<Rightarrow> int \<Rightarrow> int" where
  "expUp x k = (if x < 2 \<or> 1024 \<le> k then k else expUp (x / 2) (k + 1))"
  by pat_completeness auto
termination
  by (relation "measure (\<lambda>(x, k). nat (1024 - k))") auto

function expDown :: "real \<Rightarrow> int \<Rightarrow> int" where
  "expDown x k = (if 1 \<le> x \<or> k \<le> - 1022 then k else expDown (x * 2) (k - 1))"
  by pat_completeness auto
termination
  by (relation "measure (\<lambda>(x, k). nat (k + 1022))") auto

declare expUp.simps [simp del] expDown.simps [simp del]

definition binade :: "real \<Rightarrow> int" where
  "binade x = (if 1 \<le> \<bar>x\<bar> then expUp \<bar>x\<bar> 0 else expDown \<bar>x\<bar> 0)"

text \<open>The nearest integer, the even one of the two when \<open>m\<close> lies halfway.\<close>

definition roundEven :: "real \<Rightarrow> int" where
  "roundEven m =
     (let f = \<lfloor>m\<rfloor>; d = m - of_int f
      in if d < 1 / 2 then f else if 1 / 2 < d then f + 1 else if even f then f else f + 1)"

text \<open>
  The double that an arithmetic operation returns for the exact result \<open>x\<close>: \<open>x\<close> is
  rounded to the nearest multiple of the spacing of its binade (53 significant bits),
  ties to even, and a result of magnitude \<open>2^1024\<close> or more is an infinity.
\<close>

definition js_round :: "real \<Rightarrow> jsnum" where
  "js_round x =
     (if x = 0 then Num 0
      else
        let e = binade x - 52;
            y = of_int (roundEven (x / pow2 e)) * pow2 e
        in if 2 ^ 1024 \<le> \<bar>y\<bar> then (if 0 < x then PInf else NInf) else Num y)"

text \<open>\<^verbatim>\<open>a - b\<close> on two finite doubles.\<close>

definition js_sub :: "real \<Rightarrow> real \<Rightarrow> jsnum" where
  "js_sub a b = js_round (a - b)"

text \<open>
  \<^verbatim>\<open>v / b\<close>, the divisor a finite double; it is a width or a height, so a zero divisor
  is \<open>+0\<close>.
\<close>

fun js_div :: "jsnum \<Rightarrow> real \<Rightarrow> jsnum" where
  "js_div (Num a) b =
     (if b = 0 then (if a = 0 then NaN else if 0 < a then PInf else NInf)
      else js_round (a / b))"
| "js_div PInf b = (if b < 0 then NInf else PInf)"
| "js_div NInf b = (if b < 0 then PInf else NInf)"
| "js_div NaN b = NaN"

text \<open>\<^verbatim>\<open>v * 100\<close>.\<close>

fun js_times100 :: "jsnum \<Rightarrow> jsnum" where
  "js_times100 (Num a) = js_round (a * 100)"
| "js_times100 PInf = PInf"
| "js_times100 NInf = NInf"
| "js_times100 NaN = NaN"

text \<open>The finite doubles that are not subnormal lie in this range.\<close>

definition normalRange :: "real \<Rightarrow> bool" where
  "normalRange x = (pow2 (- 1022) \<le> \<bar>x\<bar> \<and> \<bar>x\<bar> < 2 ^ 1024)"

text \<open>
  The same range with one binade of margin at each end: a number that differs from a
  number of this range by at most a quarter of it is normal and rounds to a finite
  double.
\<close>

definition safeRange :: "real \<Rightarrow> bool" where
  "safeRange x = (pow2 (- 1021) \<le> \<bar>x\<bar> \<and> \<bar>x\<bar> < 2 ^ 1023)"

text \<open>The relative error that three roundings can add up to.\<close>

definition threeRoundings :: real where
  "threeRoundings = (1 + 1 / 2 ^ 53) ^ 3 - 1"

subsection \<open>The state of the component\<close>

record annotation =
  ann_id :: nat
  ann_x :: jsnum
  ann_y :: jsnum
  ann_text :: string
  ann_timestamp :: int

text \<open>A point \<^verbatim>\<open>{ x, y }\<close> (\<^verbatim>\<open>clientX\<close>, \<^verbatim>\<open>clientY\<close>) is a pair.\<close>

type_synonym point = "real \<times> real"

record rect =
  rect_left :: real
  rect_top :: real
  rect_width :: real
  rect_height :: real

record state =
  annotations :: "annotation list"
  selectedAnnotation :: "annotation option"
  commentText :: string
  highlightedId :: "nat option"
  annotationMode :: bool
  isCommentsPanelOpen :: bool
  popupPosition :: "point option"
  isDraggingRef :: bool
  lastMousePosRef :: "point option"
  timers :: "nat list"
  clock :: nat

text \<open>The values the hooks are created with.\<close>

definition init :: state where
  "init = \<lparr>annotations = [], selectedAnnotation = None, commentText = [],
     highlightedId = None, annotationMode = True, isCommentsPanelOpen = False,
     popupPosition = None, isDraggingRef = False, lastMousePosRef = None,
     timers = [], clock = 0\<rparr>"

section \<open>The handlers\<close>

text \<open>\<^verbatim>\<open>annotations.filter(a => a.text)\<close>: a string is truthy when it is not empty.\<close>

definition commentsWithText :: "state \<Rightarrow> annotation list" where
  "commentsWithText s = filter (\<lambda>a. ann_text a \<noteq> []) (annotations s)"

definition commentsCount :: "state \<Rightarrow> nat" where
  "commentsCount s = length (commentsWithText s)"

definition closePopup :: "state \<Rightarrow> state" where
  "closePopup s = s\<lparr>popupPosition := None, selectedAnnotation := None, commentText := []\<rparr>"

text \<open>The second argument is the corner of the clicked marker's own rectangle.\<close>

definition handleMarkerClick :: "annotation \<Rightarrow> point \<Rightarrow> state \<Rightarrow> state" where
  "handleMarkerClick a corner s =
     s\<lparr>selectedAnnotation := Some a, commentText := ann_text a, popupPosition := Some corner\<rparr>"

definition handleSaveComment :: "int \<Rightarrow> state \<Rightarrow> state" where
  "handleSaveComment now s =
     (case selectedAnnotation s of
        None \<Rightarrow> s
      | Some sel \<Rightarrow>
          closePopup (s\<lparr>annotations :=
            map (\<lambda>ann. if ann_id ann = ann_id sel
                   then ann\<lparr>ann_text := commentText s,
                          ann_timestamp := (if ann_text ann \<noteq> [] then ann_timestamp ann else now)\<rparr>
                   else ann)
              (annotations s)\<rparr>))"

definition handleCancel :: "state \<Rightarrow> state" where
  "handleCancel s =
     (case selectedAnnotation s of
        None \<Rightarrow> s
      | Some sel \<Rightarrow>
          closePopup
            (if ann_text sel = [] \<and> commentText s = []
             then s\<lparr>annotations := filter (\<lambda>ann. ann_id ann \<noteq> ann_id sel) (annotations s)\<rparr>
             else s))"

text \<open>The delay of the timer that clears the highlight, in milliseconds.\<close>

definition highlightDelay :: nat where
  "highlightDelay = 2000"

definition handleListClick :: "annotation \<Rightarrow> state \<Rightarrow> state" where
  "handleListClick a s =
     s\<lparr>highlightedId := Some (ann_id a), timers := timers s @ [clock s + highlightDelay]\<rparr>"

text \<open>
  The object literal of \<^verbatim>\<open>handleImageClick\<close>, for a store that holds \<open>n\<close> pins, a
  click at \<open>p\<close> and the image rectangle \<open>r\<close>.
\<close>

definition newAnnotation :: "nat \<Rightarrow> point \<Rightarrow> rect \<Rightarrow> int \<Rightarrow> annotation" where
  "newAnnotation n p r now =
     (let x = js_times100 (js_div (js_sub (fst p) (rect_left r)) (rect_width r));
          y = js_times100 (js_div (js_sub (snd p) (rect_top r)) (rect_height r))
      in \<lparr>ann_id = n + 1, ann_x = x, ann_y = y, ann_text = [], ann_timestamp = now\<rparr>)"

text \<open>
  The guard \<^verbatim>\<open>!annotationMode || !imageRef.current || isDraggingRef.current\<close> resets the
  drag flag and returns; it is split here on the ref first, which gives the rectangle
  its name in the branch that creates the pin.
\<close>

definition handleImageClick :: "point \<Rightarrow> rect option \<Rightarrow> int \<Rightarrow> state \<Rightarrow> state" where
  "handleImageClick p img now s =
     (case img of
        None \<Rightarrow> s\<lparr>isDraggingRef := False\<rparr>
      | Some r \<Rightarrow>
          if \<not> annotationMode s \<or> isDraggingRef s then s\<lparr>isDraggingRef := False\<rparr>
          else
            let new = newAnnotation (length (annotations s)) p r now
            in s\<lparr>annotations := annotations s @ [new],
                 selectedAnnotation := Some new,
                 commentText := [],
                 popupPosition := Some p\<rparr>)"

definition handleMouseDown :: "point \<Rightarrow> rect option \<Rightarrow> state \<Rightarrow> state" where
  "handleMouseDown p img s =
     (if img = None then s else s\<lparr>lastMousePosRef := Some p, isDraggingRef := False\<rparr>)"

definition handleMouseMove :: "point \<Rightarrow> rect option \<Rightarrow> state \<Rightarrow> state" where
  "handleMouseMove p img s =
     (case lastMousePosRef s of
        None \<Rightarrow> s
      | Some q \<Rightarrow>
          if img = None then s
          else
            let dx = \<bar>fst p - fst q\<bar>; dy = \<bar>snd p - snd q\<bar>
            in if dx > 5 \<or> dy > 5 then s\<lparr>isDraggingRef := True\<rparr> else s)"

definition handleMouseUp :: "state \<Rightarrow> state" where
  "handleMouseUp s = s\<lparr>lastMousePosRef := None\<rparr>"

text \<open>
  The callbacks of \<^verbatim>\<open>setTimeout\<close> that are due once \<open>d\<close> more milliseconds have passed
  run, each of them \<^verbatim>\<open>setHighlightedId(null)\<close>; the others stay pending.
\<close>

definition elapse :: "nat \<Rightarrow> state \<Rightarrow> state" where
  "elapse d s =
     (let t = clock s + d
      in s\<lparr>clock := t,
           timers := filter (\<lambda>due. t < due) (timers s),
           highlightedId := (if list_ex (\<lambda>due. due \<le> t) (timers s) then None else highlightedId s)\<rparr>)"

text \<open>A pin carries the highlight ring when \<^verbatim>\<open>highlightedId === annotation.id\<close>.\<close>

definition isHighlighted :: "state \<Rightarrow> annotation \<Rightarrow> bool" where
  "isHighlighted s a = (highlightedId s = Some (ann_id a))"

section \<open>Events\<close>

text \<open>
  What the user and the clock can do to the rendered component. A marker and a comment
  entry exist only for an element of the list they are rendered from, so the event names
  the position in that list; the popup's controls exist only while the popup is rendered.
\<close>

datatype event =
    ImageClick point "rect option" int
  | MouseDown point "rect option"
  | MouseMove point "rect option"
  | MouseUp
  | MarkerClick nat point
  | SetCommentText string
  | SaveComment int
  | Cancel
  | ListEntryClick nat
  | ToggleAnnotationMode
  | OpenCommentsPanel
  | CloseCommentsPanel
  | Elapse nat

definition popupRendered :: "state \<Rightarrow> bool" where
  "popupRendered s = (popupPosition s \<noteq> None \<and> selectedAnnotation s \<noteq> None)"

fun step :: "event \<Rightarrow> state \<Rightarrow> state" where
  "step (ImageClick p img now) s = handleImageClick p img now s"
| "step (MouseDown p img) s = handleMouseDown p img s"
| "step (MouseMove p img) s = handleMouseMove p img s"
| "step MouseUp s = handleMouseUp s"
| "step (MarkerClick i corner) s =
     (if i < length (annotations s) then handleMarkerClick (annotations s ! i) corner s else s)"
| "step (SetCommentText t) s = (if popupRendered s then s\<lparr>commentText := t\<rparr> else s)"
| "step (SaveComment now) s = (if popupRendered s then handleSaveComment now s else s)"
| "step Cancel s = (if popupRendered s then handleCancel s else s)"
| "step (ListEntryClick i) s =
     (if i < length (commentsWithText s)
      then (handleListClick (commentsWithText s ! i) s)\<lparr>isCommentsPanelOpen := False\<rparr>
      else s)"
| "step ToggleAnnotationMode s = s\<lparr>annotationMode := \<not> annotationMode s\<rparr>"
| "step OpenCommentsPanel s = s\<lparr>isCommentsPanelOpen := True\<rparr>"
| "step CloseCommentsPanel s = s\<lparr>isCommentsPanelOpen := False\<rparr>"
| "step (Elapse d) s = elapse d s"

fun isImageClick :: "event \<Rightarrow> bool" where
  "isImageClick (ImageClick p img now) = True"
| "isImageClick e = False"

text \<open>A session: the events in the order they happen.\<close>

fun run :: "event list \<Rightarrow> state \<Rightarrow> state" where
  "run [] s = s"
| "run (e # es) s = run es (step e s)"

text \<open>
  One pointer gesture over the image: the button goes down at \<open>p\<close>, the pointer visits
  \<open>moves\<close>, the button goes up and the browser delivers the click at \<open>c\<close>.
\<close>

definition gesture :: "point \<Rightarrow> point list \<Rightarrow> point \<Rightarrow> rect option \<Rightarrow> int \<Rightarrow> event list" where
  "gesture p moves c img now =
     MouseDown p img # map (\<lambda>m. MouseMove m img) moves @ [MouseUp, ImageClick c img now]"

text \<open>The test of \<^verbatim>\<open>handleMouseMove\<close>: more than 5 pixels away from the press in one axis.\<close>

definition exceedsThreshold :: "point \<Rightarrow> point \<Rightarrow> bool" where
  "exceedsThreshold p m = (\<bar>fst m - fst p\<bar> > 5 \<or> \<bar>snd m - snd p\<bar> > 5)"

text \<open>
  A plain click: a gesture over the mounted image (press, visited points, point of the
  click, rectangle of the image, time) on which no visited point exceeds the threshold.
\<close>

type_synonym plainClick = "point \<times> point list \<times> point \<times> rect \<times> int"

fun clickEvents :: "plainClick \<Rightarrow> event list" where
  "clickEvents (p, ms, c, r, now) = gesture p ms c (Some r) now"

fun isPlain :: "plainClick \<Rightarrow> bool" where
  "isPlain (p, ms, c, r, now) = list_all (\<lambda>m. \<not> exceedsThreshold p m) ms"

text \<open>The pin that a plain click is expected to add to a store of \<open>n\<close> pins.\<close>

fun pinOf :: "nat \<Rightarrow> plainClick \<Rightarrow> annotation" where
  "pinOf n (p, ms, c, r, now) = newAnnotation n c r now"

definition clicks :: "plainClick list \<Rightarrow> event list" where
  "clicks gs = concat (map clickEvents gs)"

text \<open>An image rectangle for the worked examples: 200 by 100 pixels at (100, 50).\<close>

definition sampleRect :: rect where
  "sampleRect = \<lparr>rect_left = 100, rect_top = 50, rect_width = 200, rect_height = 100\<rparr>"

text \<open>A plain click for the worked examples: the pointer moves by two pixels before the release.\<close>

definition samplePlainClick :: plainClick where
  "samplePlainClick = ((160, 90), [(162, 91)], (162, 91), sampleRect, 1000)"

text \<open>The events of a click at \<open>p\<close> at time \<open>now\<close> with no movement, the image at \<open>sampleRect\<close>.\<close>

definition clickAt :: "point \<Rightarrow> int \<Rightarrow> event list" where
  "clickAt p now = clickEvents (p, [], p, sampleRect, now)"

text \<open>
  Two sessions that end with the deletion of a pin. In the first, two pins are placed and
  the edit of the second, still without a text, is cancelled. In the second, two pins are
  placed, the second receives the comment \<open>b\<close>, and then the first, which never received
  a text, is opened again and its edit cancelled.
\<close>

definition sessionCancelSecond :: "event list" where
  "sessionCancelSecond = clickAt (160, 90) 1000 @ clickAt (120, 60) 2000 @ [Cancel]"

definition sessionCancelFirst :: "event list" where
  "sessionCancelFirst =
     clickAt (160, 90) 1000 @ clickAt (120, 60) 2000 @ [SetCommentText ''b'', SaveComment 2500]
     @ [MarkerClick 0 (155, 85), Cancel]"

text \<open>Two pins, commented \<open>a\<close> and \<open>b\<close>, so that the comment panel has two entries.\<close>

definition sessionTwoComments :: "event list" where
  "sessionTwoComments =
     clickAt (160, 90) 1000 @ [SetCommentText ''a'', SaveComment 1500]
     @ clickAt (120, 60) 2000 @ [SetCommentText ''b'', SaveComment 2500]"

text \<open>The pin under edit, when there is one, is a pin of the store.\<close>

definition selectionInStore :: "state \<Rightarrow> bool" where
  "selectionInStore s = (case selectedAnnotation s of None \<Rightarrow> True | Some a \<Rightarrow> a \<in> set (annotations s))"

section \<open>Evaluating the arithmetic\<close>

lemmas fl_eval =
  js_sub_def js_round_def binade_def expUp.simps expDown.simps roundEven_def pow2_def Let_def

text \<open>
  The coordinates of the worked examples. The first two are the example of the
  specification, a click at 30 and 40 percent of the image; the last shows a rounding:
  7 / 200 * 100 is stored as 3.5000000000000004, one spacing above 3.5.
\<close>

lemma percent_160: "js_times100 (js_div (js_sub 160 100) 200) = Num 30"
  by (simp add: fl_eval)

lemma percent_90: "js_times100 (js_div (js_sub 90 50) 100) = Num 40"
  by (simp add: fl_eval)

lemma percent_120: "js_times100 (js_div (js_sub 120 100) 200) = Num 10"
  by (simp add: fl_eval)

lemma percent_60: "js_times100 (js_div (js_sub 60 50) 100) = Num 10"
  by (simp add: fl_eval)

lemma percent_130: "js_times100 (js_div (js_sub 130 100) 200) = Num 15"
  by (simp add: fl_eval)

lemma percent_70: "js_times100 (js_div (js_sub 70 50) 100) = Num 20"
  by (simp add: fl_eval)

lemma percent_107: "js_times100 (js_div (js_sub 107 100) 200) = Num (7 / 2 + 1 / 2 ^ 51)"
  by (simp add: fl_eval)

lemma newAnnotation_107_90:
  "newAnnotation n (107, 90) sampleRect now =
     \<lparr>ann_id = n + 1, ann_x = Num (7 / 2 + 1 / 2 ^ 51), ann_y = Num 40, ann_text = [],
       ann_timestamp = now\<rparr>"
  by (simp add: newAnnotation_def sampleRect_def percent_107 percent_90)

lemma newAnnotation_160_90:
  "newAnnotation n (160, 90) sampleRect now =
     \<lparr>ann_id = n + 1, ann_x = Num 30, ann_y = Num 40, ann_text = [], ann_timestamp = now\<rparr>"
  by (simp add: newAnnotation_def sampleRect_def percent_160 percent_90)

lemma newAnnotation_120_60:
  "newAnnotation n (120, 60) sampleRect now =
     \<lparr>ann_id = n + 1, ann_x = Num 10, ann_y = Num 10, ann_text = [], ann_timestamp = now\<rparr>"
  by (simp add: newAnnotation_def sampleRect_def percent_120 percent_60)

lemma newAnnotation_130_70:
  "newAnnotation n (130, 70) sampleRect now =
     \<lparr>ann_id = n + 1, ann_x = Num 15, ann_y = Num 20, ann_text = [], ann_timestamp = now\<rparr>"
  by (simp add: newAnnotation_def sampleRect_def percent_130 percent_70)

section \<open>Accuracy of the rounded arithmetic\<close>

text \<open>
  A rounding moves a normal number by at most \<open>2^-53\<close> of its magnitude. The percentage
  of \<^verbatim>\<open>handleImageClick\<close> rounds three times, after the subtraction, the division and the
  multiplication.
\<close>

lemma pow2_powi: "pow2 e = 2 powi e"
  by (simp add: pow2_def power_int_def inverse_eq_divide power_one_over)

lemma pow2_pos: "0 < pow2 e"
  by (simp add: pow2_powi)

lemma pow2_succ: "pow2 (e + 1) = 2 * pow2 e"
  by (simp add: pow2_powi power_int_add)

lemma pow2_pred: "pow2 (e - 1) = pow2 e / 2"
  using pow2_succ [of "e - 1"] by simp

lemma pow2_0: "pow2 0 = 1"
  by (simp add: pow2_def)

lemma expUp_bounds:
  "k \<le> 1024 \<Longrightarrow> 1 \<le> x \<Longrightarrow> x < pow2 (1025 - k) \<Longrightarrow>
   pow2 (expUp x k - k) \<le> x \<and> x < pow2 (expUp x k - k + 1)"
proof (induction x k rule: expUp.induct)
  case (1 x k)
  show ?case
  proof (cases "x < 2")
    case True
    then have "expUp x k = k" by (simp add: expUp.simps)
    with True "1.prems" show ?thesis by (simp add: pow2_def)
  next
    case False
    have k: "k < 1024"
    proof (rule ccontr)
      assume "\<not> k < 1024"
      with "1.prems" have "k = 1024" by simp
      with "1.prems" have "x < 2" by (simp add: pow2_def)
      with False show False by simp
    qed
    have rec: "expUp x k = expUp (x / 2) (k + 1)"
      using False k by (subst expUp.simps) simp
    have "x / 2 < pow2 (1025 - (k + 1))"
      using "1.prems"(3) pow2_pred [of "1025 - k"] by (simp add: algebra_simps)
    with "1.IH" False k "1.prems" have
      ih: "pow2 (expUp (x / 2) (k + 1) - (k + 1)) \<le> x / 2
         \<and> x / 2 < pow2 (expUp (x / 2) (k + 1) - (k + 1) + 1)"
      by simp
    let ?r = "expUp (x / 2) (k + 1)"
    have "pow2 (?r - k) = 2 * pow2 (?r - (k + 1))"
      using pow2_succ [of "?r - (k + 1)"] by (simp add: algebra_simps)
    moreover have "pow2 (?r - k + 1) = 2 * pow2 (?r - (k + 1) + 1)"
      using pow2_succ [of "?r - (k + 1) + 1"] by (simp add: algebra_simps)
    ultimately show ?thesis
      using ih by (simp add: rec)
  qed
qed

lemma expDown_bounds:
  "- 1022 \<le> k \<Longrightarrow> 0 < x \<Longrightarrow> x < 2 \<Longrightarrow> pow2 (- 1022 - k) \<le> x \<Longrightarrow>
   pow2 (expDown x k - k) \<le> x \<and> x < pow2 (expDown x k - k + 1)"
proof (induction x k rule: expDown.induct)
  case (1 x k)
  show ?case
  proof (cases "1 \<le> x")
    case True
    then have "expDown x k = k" by (simp add: expDown.simps)
    with True "1.prems" show ?thesis by (simp add: pow2_def)
  next
    case False
    have k: "- 1022 < k"
    proof (rule ccontr)
      assume "\<not> - 1022 < k"
      with "1.prems" have "k = - 1022" by simp
      with "1.prems" have "1 \<le> x" by (simp add: pow2_def)
      with False show False by simp
    qed
    have rec: "expDown x k = expDown (x * 2) (k - 1)"
      using False k by (subst expDown.simps) simp
    have "pow2 (- 1022 - (k - 1)) \<le> x * 2"
      using "1.prems"(4) pow2_succ [of "- 1022 - k"] by (simp add: algebra_simps)
    with "1.IH" False k "1.prems" have
      ih: "pow2 (expDown (x * 2) (k - 1) - (k - 1)) \<le> x * 2
         \<and> x * 2 < pow2 (expDown (x * 2) (k - 1) - (k - 1) + 1)"
      by simp
    let ?r = "expDown (x * 2) (k - 1)"
    have "pow2 (?r - (k - 1)) = 2 * pow2 (?r - k)"
      using pow2_succ [of "?r - k"] by (simp add: algebra_simps)
    moreover have "pow2 (?r - (k - 1) + 1) = 2 * pow2 (?r - k + 1)"
      using pow2_succ [of "?r - k + 1"] by (simp add: algebra_simps)
    ultimately show ?thesis
      using ih by (simp add: rec)
  qed
qed

lemma binade_bounds:
  assumes "normalRange x"
  shows "pow2 (binade x) \<le> \<bar>x\<bar> \<and> \<bar>x\<bar> < pow2 (binade x + 1)"
proof (cases "1 \<le> \<bar>x\<bar>")
  case True
  have "\<bar>x\<bar> < pow2 (1025 - 0)"
    using assms by (simp add: normalRange_def pow2_def)
  with True expUp_bounds [of 0 "\<bar>x\<bar>"] show ?thesis
    by (simp add: binade_def)
next
  case False
  have low: "pow2 (- 1022) \<le> \<bar>x\<bar>"
    using assms unfolding normalRange_def by (rule conjunct1)
  then have "pow2 (- 1022 - 0) \<le> \<bar>x\<bar>"
    by simp
  moreover have "0 < \<bar>x\<bar>"
    using low pow2_pos [of "- 1022"] by linarith
  ultimately show ?thesis
    using False expDown_bounds [of 0 "\<bar>x\<bar>"] by (simp add: binade_def)
qed

lemma roundEven_close: "\<bar>of_int (roundEven m) - m\<bar> \<le> 1 / 2"
proof -
  have "of_int \<lfloor>m\<rfloor> \<le> m" "m < of_int \<lfloor>m\<rfloor> + 1"
    by linarith+
  then show ?thesis
    by (auto simp: roundEven_def Let_def)
qed

lemma round_value_close:
  assumes "normalRange x"
  shows "\<bar>of_int (roundEven (x / pow2 (binade x - 52))) * pow2 (binade x - 52) - x\<bar> \<le> \<bar>x\<bar> / 2 ^ 53"
proof -
  let ?e = "binade x - 52"
  let ?n = "roundEven (x / pow2 ?e)"
  let ?y = "of_int ?n * pow2 ?e"
  have pe: "0 < pow2 ?e" by (rule pow2_pos)
  have "\<bar>?y - x\<bar> = \<bar>of_int ?n - x / pow2 ?e\<bar> * pow2 ?e"
  proof -
    have "?y - x = (of_int ?n - x / pow2 ?e) * pow2 ?e"
      using pe by (simp add: field_simps)
    then show ?thesis
      using pe by (simp add: abs_mult)
  qed
  also have "\<dots> \<le> 1 / 2 * pow2 ?e"
    using roundEven_close [of "x / pow2 ?e"] pe by (intro mult_right_mono) simp_all
  also have "1 / 2 * pow2 ?e = pow2 (binade x) / 2 ^ 53"
  proof -
    have "(2::real) powi (binade x - 52 + 52) = 2 powi (binade x - 52) * 2 powi 52"
      by (rule power_int_add) simp
    then have "pow2 (binade x) = pow2 ?e * 2 ^ 53 / 2"
      by (simp add: pow2_powi)
    then show ?thesis by simp
  qed
  also have "\<dots> \<le> \<bar>x\<bar> / 2 ^ 53"
    using binade_bounds [OF assms] by (simp add: divide_right_mono)
  finally show ?thesis .
qed

lemma js_round_near:
  assumes low: "pow2 (- 1021) \<le> \<bar>t\<bar>" and up: "\<bar>t\<bar> < 2 ^ 1023"
    and near: "\<bar>x - t\<bar> \<le> \<bar>t\<bar> / 4"
  shows "\<exists>y. js_round x = Num y \<and> \<bar>y - x\<bar> \<le> \<bar>x\<bar> / 2 ^ 53"
proof -
  let ?y = "of_int (roundEven (x / pow2 (binade x - 52))) * pow2 (binade x - 52)"
  have p: "pow2 (- 1021) = 2 * pow2 (- 1022)"
    using pow2_succ [of "- 1022"] by simp
  have p0: "0 < pow2 (- 1022)"
    by (rule pow2_pos)
  have xlow: "pow2 (- 1022) \<le> \<bar>x\<bar>"
    using low near p p0 by linarith
  have xup: "\<bar>x\<bar> < 3 / 2 * 2 ^ 1023"
    using up near by linarith
  have "(3 / 2 :: real) * 2 ^ 1023 \<le> 2 ^ 1024"
    by simp
  then have n: "normalRange x"
    using xlow xup unfolding normalRange_def by linarith
  have close: "\<bar>?y - x\<bar> \<le> \<bar>x\<bar> / 2 ^ 53"
    using n by (rule round_value_close)
  have x0: "x \<noteq> 0"
    using xlow p0 by auto
  have "\<bar>x\<bar> / 2 ^ 53 \<le> \<bar>x\<bar> / 4"
    by (intro divide_left_mono) simp_all
  then have "\<bar>?y\<bar> \<le> 5 / 4 * \<bar>x\<bar>"
    using close by linarith
  also have "\<dots> < 5 / 4 * (3 / 2 * 2 ^ 1023)"
    using xup by linarith
  also have "\<dots> \<le> 2 ^ 1024"
    by simp
  finally have "\<bar>?y\<bar> < 2 ^ 1024" .
  then have "js_round x = Num ?y"
    using x0 by (simp add: js_round_def Let_def)
  with close show ?thesis by blast
qed

lemma percent_accuracy:
  assumes w: "w \<noteq> 0"
    and s1: "safeRange (a - b)" and s2: "safeRange ((a - b) / w)"
    and s3: "safeRange ((a - b) / w * 100)"
  shows "\<exists>v. js_times100 (js_div (js_sub a b) w) = Num v
     \<and> \<bar>v - (a - b) / w * 100\<bar> \<le> threeRoundings * \<bar>(a - b) / w * 100\<bar>"
proof -
  define u :: real where "u = 1 / 2 ^ 53"
  define c where "c = (a - b) / w"
  define A where "A = \<bar>c\<bar>"
  define R where "R = u * (A + u * A) + u * A"
  have u0: "0 \<le> u" and u16: "u \<le> 1 / 16"
    by (simp_all add: u_def)
  have A0: "0 \<le> A"
    by (simp add: A_def)
  have uA: "0 \<le> u * A" "u * A \<le> A / 16"
    using u0 u16 A0 mult_right_mono [of u "1 / 16" A] by simp_all
  have R8: "R \<le> A / 4"
  proof -
    have "A + u * A \<le> 2 * A"
      using uA A0 by linarith
    then have "u * (A + u * A) \<le> u * (2 * A)"
      using u0 by (rule mult_left_mono)
    then show ?thesis
      unfolding R_def using uA by linarith
  qed
  \<comment> \<open>the subtraction\<close>
  have "\<bar>(a - b) - (a - b)\<bar> \<le> \<bar>a - b\<bar> / 4"
    by simp
  with s1 obtain d where d: "js_round (a - b) = Num d"
      and dc: "\<bar>d - (a - b)\<bar> \<le> \<bar>a - b\<bar> / 2 ^ 53"
    unfolding safeRange_def using js_round_near [of "a - b" "a - b"] by blast
  define d' where "d' = d / w"
  have g1: "\<bar>d' - c\<bar> \<le> u * A"
  proof -
    have "\<bar>d' - c\<bar> = \<bar>d - (a - b)\<bar> / \<bar>w\<bar>"
      by (simp add: d'_def c_def diff_divide_distrib [symmetric])
    also have "\<dots> \<le> (\<bar>a - b\<bar> / 2 ^ 53) / \<bar>w\<bar>"
      using dc by (rule divide_right_mono) simp
    also have "\<dots> = u * A"
      by (simp add: u_def A_def c_def)
    finally show ?thesis .
  qed
  have g2: "\<bar>d'\<bar> \<le> A + u * A"
    using g1 unfolding A_def by linarith
  \<comment> \<open>the division\<close>
  have "\<bar>d' - c\<bar> \<le> \<bar>c\<bar> / 4"
    using g1 uA A0 unfolding A_def by linarith
  with s2 obtain q where q: "js_round d' = Num q" and qc: "\<bar>q - d'\<bar> \<le> \<bar>d'\<bar> / 2 ^ 53"
    unfolding safeRange_def c_def [symmetric] using js_round_near [of c d'] by blast
  have "\<bar>d'\<bar> / 2 ^ 53 = u * \<bar>d'\<bar>"
    by (simp add: u_def)
  also have "\<dots> \<le> u * (A + u * A)"
    using g2 u0 by (rule mult_left_mono)
  finally have g3: "\<bar>q - d'\<bar> \<le> u * (A + u * A)"
    using qc by linarith
  have g4: "\<bar>q - c\<bar> \<le> R"
    unfolding R_def using g1 g3 by linarith
  \<comment> \<open>the multiplication\<close>
  define t where "t = c * 100"
  define q' where "q' = q * 100"
  have E: "\<bar>t\<bar> = 100 * A"
    unfolding t_def A_def by (simp only: abs_mult abs_numeral mult.commute)
  have g5: "\<bar>q' - t\<bar> \<le> 100 * R"
  proof -
    have "\<bar>q' - t\<bar> = \<bar>(q - c) * 100\<bar>"
      unfolding q'_def t_def by (simp only: left_diff_distrib)
    also have "\<dots> = \<bar>q - c\<bar> * 100"
      by (simp only: abs_mult abs_numeral)
    also have "\<dots> \<le> R * 100"
      using g4 by (rule mult_right_mono) simp
    finally show ?thesis by (simp only: mult.commute)
  qed
  have "\<bar>q' - t\<bar> \<le> \<bar>t\<bar> / 4"
    using g5 R8 E by linarith
  with s3 obtain v where v: "js_round q' = Num v" and vc: "\<bar>v - q'\<bar> \<le> \<bar>q'\<bar> / 2 ^ 53"
    unfolding safeRange_def c_def [symmetric] t_def [symmetric] using js_round_near [of t q'] by blast
  have g6: "\<bar>q'\<bar> \<le> 100 * A + 100 * R"
    using g5 E by linarith
  have "\<bar>q'\<bar> / 2 ^ 53 = u * \<bar>q'\<bar>"
    by (simp add: u_def)
  also have "\<dots> \<le> u * (100 * A + 100 * R)"
    using g6 u0 by (rule mult_left_mono)
  finally have g7: "\<bar>v - q'\<bar> \<le> u * (100 * A + 100 * R)"
    using vc by linarith
  have "\<bar>v - t\<bar> \<le> u * (100 * A + 100 * R) + 100 * R"
    using g5 g7 by linarith
  also have "\<dots> = ((1 + u) ^ 3 - 1) * (100 * A)"
    by (simp add: R_def algebra_simps power3_eq_cube)
  also have "\<dots> = threeRoundings * \<bar>t\<bar>"
    by (simp only: threeRoundings_def u_def E)
  finally have bound: "\<bar>v - t\<bar> \<le> threeRoundings * \<bar>t\<bar>" .
  have "js_times100 (js_div (js_sub a b) w) = Num v"
    using d q v w by (simp add: js_sub_def d'_def q'_def)
  with bound show ?thesis
    unfolding t_def c_def by blast
qed

section \<open>Pointer gestures\<close>

lemma run_append: "run (es @ fs) s = run fs (run es s)"
  by (induction es arbitrary: s) auto

lemma run_moves_annotations:
  "annotations (run (map (\<lambda>m. MouseMove m img) ms) s) = annotations s"
  by (induction ms arbitrary: s) (auto simp: handleMouseMove_def Let_def split: option.splits)

lemma run_moves:
  "lastMousePosRef s = Some p \<Longrightarrow>
   run (map (\<lambda>m. MouseMove m (Some r)) ms) s =
     s\<lparr>isDraggingRef := isDraggingRef s \<or> list_ex (exceedsThreshold p) ms\<rparr>"
proof (induction ms arbitrary: s)
  case Nil
  then show ?case by simp
next
  case (Cons m ms)
  let ?s1 = "handleMouseMove m (Some r) s"
  have s1: "?s1 = s\<lparr>isDraggingRef := isDraggingRef s \<or> exceedsThreshold p m\<rparr>"
    using Cons.prems by (auto simp: handleMouseMove_def exceedsThreshold_def Let_def)
  have "lastMousePosRef ?s1 = Some p"
    using Cons.prems by (simp add: s1)
  from Cons.IH [OF this] show ?case
    by (simp add: s1 disj_assoc)
qed

lemma run_gesture_mounted:
  "run (gesture p ms c (Some r) now) s =
     handleImageClick c (Some r) now
       (s\<lparr>isDraggingRef := list_ex (exceedsThreshold p) ms, lastMousePosRef := None\<rparr>)"
  by (simp add: gesture_def run_append handleMouseDown_def handleMouseUp_def
      run_moves [where p = p])

lemma run_gesture_unmounted:
  "annotations (run (gesture p ms c None now) s) = annotations s"
  by (simp add: gesture_def run_append handleMouseDown_def handleMouseUp_def
      run_moves_annotations handleImageClick_def)



section \<open>Sequences of plain clicks\<close>

lemma handleImageClick_creates:
  "annotationMode s \<Longrightarrow> \<not> isDraggingRef s \<Longrightarrow>
   handleImageClick c (Some r) now s =
     s\<lparr>annotations := annotations s @ [newAnnotation (length (annotations s)) c r now],
       selectedAnnotation := Some (newAnnotation (length (annotations s)) c r now),
       commentText := [],
       popupPosition := Some c\<rparr>"
  by (simp add: handleImageClick_def Let_def)

lemma list_ex_not_plain: "list_ex P ms = (\<not> list_all (\<lambda>m. \<not> P m) ms)"
  by (induction ms) auto

lemma run_plain_click:
  assumes "annotationMode s" "isPlain g"
  shows "annotations (run (clickEvents g) s) = annotations s @ [pinOf (length (annotations s)) g]"
    and "annotationMode (run (clickEvents g) s)"
proof -
  obtain p ms c r now where g: "g = (p, ms, c, r, now)"
    by (cases g) auto
  have nodrag: "\<not> list_ex (exceedsThreshold p) ms"
    using assms(2) by (simp add: g list_ex_not_plain)
  show "annotations (run (clickEvents g) s) = annotations s @ [pinOf (length (annotations s)) g]"
    using assms(1) nodrag by (simp add: g run_gesture_mounted handleImageClick_creates)
  show "annotationMode (run (clickEvents g) s)"
    using assms(1) nodrag by (simp add: g run_gesture_mounted handleImageClick_creates)
qed

lemma run_clicks:
  "annotationMode s \<Longrightarrow> list_all isPlain gs \<Longrightarrow>
   annotations (run (clicks gs) s) =
     annotations s @ map (\<lambda>(k, g). pinOf k g) (zip [length (annotations s) ..< length (annotations s) + length gs] gs)"
proof (induction gs arbitrary: s)
  case Nil
  then show ?case by (simp add: clicks_def)
next
  case (Cons g gs)
  let ?s1 = "run (clickEvents g) s"
  have m: "annotationMode ?s1" and a: "annotations ?s1 = annotations s @ [pinOf (length (annotations s)) g]"
    using Cons.prems run_plain_click [of s g] by simp_all
  have "annotations (run (clicks gs) ?s1) =
     annotations ?s1 @ map (\<lambda>(k, g). pinOf k g) (zip [length (annotations ?s1) ..< length (annotations ?s1) + length gs] gs)"
    using Cons.IH [OF m] Cons.prems by simp
  moreover have "[length (annotations s) ..< length (annotations s) + length (g # gs)] =
      length (annotations s) # [length (annotations ?s1) ..< length (annotations ?s1) + length gs]"
    by (subst upt_rec) (simp add: a)
  ultimately show ?case
    by (simp add: clicks_def run_append a del: upt_Suc)
qed

lemma ann_id_pinOf: "ann_id (pinOf k g) = Suc k"
  by (cases g) (simp add: newAnnotation_def Let_def)

lemma ann_text_pinOf: "ann_text (pinOf k g) = []"
  by (cases g) (simp add: newAnnotation_def Let_def)

lemma annotations_init_clicks:
  assumes "list_all isPlain gs"
  shows "annotations (run (clicks gs) init) = map (\<lambda>(k, g). pinOf k g) (zip [0 ..< length gs] gs)"
  using run_clicks [of init gs] assms by (simp add: init_def)

lemma length_init_clicks:
  "list_all isPlain gs \<Longrightarrow> length (annotations (run (clicks gs) init)) = length gs"
  by (simp add: annotations_init_clicks)

lemma ids_of_zip:
  "length ks = length gs \<Longrightarrow>
   map ann_id (map (\<lambda>(k, g). pinOf k g) (zip ks gs)) = map Suc ks"
  by (induction ks gs rule: list_induct2) (simp_all add: ann_id_pinOf)

lemma ids_of_pins:
  "map ann_id (map (\<lambda>(k, g). pinOf k g) (zip [n ..< n + length gs] gs)) = [Suc n ..< Suc (n + length gs)]"
  by (simp only: ids_of_zip length_upt add_diff_cancel_left' map_Suc_upt)

text \<open>
  C5. From the initial state (empty store, annotation mode on), \<open>N\<close> plain clicks
  leave exactly \<open>N\<close> pins in the store; their ids are 1, ..., \<open>N\<close> in the order of the
  clicks; each has the empty text; the pin at position \<open>k\<close> is the one made from the
  \<open>k\<close>-th click, and its id is one more than the number of pins the store held when
  that click arrived.
\<close>

theorem plain_clicks_create_pins:
  assumes "list_all isPlain gs"
  shows "let anns = annotations (run (clicks gs) init) in
     length anns = length gs
     \<and> map ann_id anns = [1 ..< Suc (length gs)]
     \<and> list_all (\<lambda>a. ann_text a = []) anns
     \<and> (\<forall>k < length gs.
           anns ! k = pinOf k (gs ! k)
           \<and> ann_id (anns ! k) = length (annotations (run (clicks (take k gs)) init)) + 1)"
proof -
  let ?anns = "annotations (run (clicks gs) init)"
  have anns: "?anns = map (\<lambda>(k, g). pinOf k g) (zip [0 ..< length gs] gs)"
    using assms by (rule annotations_init_clicks)
  have len: "length ?anns = length gs"
    by (simp add: anns)
  have ids: "map ann_id ?anns = [1 ..< Suc (length gs)]"
    using ids_of_pins [of 0 gs] by (simp add: anns)
  have texts: "list_all (\<lambda>a. ann_text a = []) ?anns"
    by (simp add: anns list_all_iff ann_text_pinOf case_prod_beta)
  have each: "?anns ! k = pinOf k (gs ! k)
      \<and> ann_id (?anns ! k) = length (annotations (run (clicks (take k gs)) init)) + 1"
    if k: "k < length gs" for k
  proof -
    have "list_all isPlain (take k gs)"
      using assms by (auto simp: list_all_iff dest: in_set_takeD)
    then have "length (annotations (run (clicks (take k gs)) init)) = k"
      using k by (simp add: length_init_clicks)
    moreover have "?anns ! k = pinOf k (gs ! k)"
      using k by (simp add: anns)
    ultimately show ?thesis
      by (simp add: ann_id_pinOf)
  qed
  show ?thesis
    unfolding Let_def using len ids texts each by blast
qed

theorem plain_clicks_create_pins_witness:
  "list_all isPlain
     [((160, 90), [(162, 91)], (162, 91), sampleRect, 1000), ((120, 60), [], (120, 60), sampleRect, 2000)]
   \<and> map ann_id (annotations (run (clicks
     [((160, 90), [(162, 91)], (162, 91), sampleRect, 1000), ((120, 60), [], (120, 60), sampleRect, 2000)])
     init)) = [1, 2]"
proof -
  let ?gs = "[((160, 90), [(162, 91)], (162, 91), sampleRect, 1000),
              ((120, 60), [], (120, 60), sampleRect, 2000)] :: plainClick list"
  have h: "list_all isPlain ?gs"
    by (simp add: exceedsThreshold_def)
  have "map ann_id (annotations (run (clicks ?gs) init)) = [1 ..< Suc (length ?gs)]"
    using plain_clicks_create_pins [OF h] by (simp only: Let_def)
  also have "[1 ..< Suc (length ?gs)] = [1, 2]"
    by (simp add: upt_rec)
  finally show ?thesis
    using h by simp
qed

section \<open>The annotation-mode toggle\<close>

lemma step_mode_irrelevant:
  assumes "\<not> isImageClick e"
  shows "(step e (s\<lparr>annotationMode := b\<rparr>))\<lparr>annotationMode := c\<rparr> = (step e s)\<lparr>annotationMode := c\<rparr>"
proof (cases e)
  case (ImageClick p img now)
  with assms show ?thesis by simp
next
  case (MouseDown p img)
  then show ?thesis by (simp add: handleMouseDown_def)
next
  case (MouseMove p img)
  then show ?thesis by (simp add: handleMouseMove_def Let_def split: option.splits)
next
  case MouseUp
  then show ?thesis by (simp add: handleMouseUp_def)
next
  case (MarkerClick i corner)
  then show ?thesis by (simp add: handleMarkerClick_def)
next
  case (SetCommentText t)
  then show ?thesis by (simp add: popupRendered_def)
next
  case (SaveComment now)
  then show ?thesis
    by (simp add: popupRendered_def handleSaveComment_def closePopup_def split: option.splits)
next
  case Cancel
  then show ?thesis
    by (simp add: popupRendered_def handleCancel_def closePopup_def split: option.splits)
next
  case (ListEntryClick i)
  then show ?thesis by (simp add: handleListClick_def commentsWithText_def)
next
  case ToggleAnnotationMode
  then show ?thesis by simp
next
  case OpenCommentsPanel
  then show ?thesis by simp
next
  case CloseCommentsPanel
  then show ?thesis by simp
next
  case (Elapse d)
  then show ?thesis by (simp add: elapse_def Let_def)
qed

lemma handleImageClick_mode_off:
  "\<not> annotationMode s \<Longrightarrow> handleImageClick p img now s = s\<lparr>isDraggingRef := False\<rparr>"
  by (simp add: handleImageClick_def split: option.splits)

lemma run_gesture_mode_off:
  assumes "\<not> annotationMode s"
  shows "annotations (run (gesture p ms c img now) s) = annotations s"
proof (cases img)
  case None
  then show ?thesis by (simp add: run_gesture_unmounted)
next
  case (Some r)
  then show ?thesis using assms
    by (simp add: run_gesture_mounted handleImageClick_mode_off)
qed

text \<open>
  C6. With the annotation mode off, the click handler changes nothing but the drag flag,
  which it resets, and a plain click leaves the store as it was; with the mode on, a
  plain click over the mounted image appends a pin. The mode gates nothing else: for
  every event other than the click on the image, the next state does not depend on the
  mode (the two runs agree once the mode field is set to a common value).
\<close>

theorem annotationMode_gates_creation:
  "(\<not> annotationMode s \<longrightarrow>
      handleImageClick p img now s = s\<lparr>isDraggingRef := False\<rparr>
      \<and> annotations (run (clickEvents g) s) = annotations s)
   \<and> (annotationMode s \<and> isPlain g \<longrightarrow>
      annotations (run (clickEvents g) s) = annotations s @ [pinOf (length (annotations s)) g])
   \<and> (\<not> isImageClick e \<longrightarrow>
      (step e (s\<lparr>annotationMode := b\<rparr>))\<lparr>annotationMode := c\<rparr> = (step e s)\<lparr>annotationMode := c\<rparr>)"
proof (intro conjI impI)
  assume off: "\<not> annotationMode s"
  show "handleImageClick p img now s = s\<lparr>isDraggingRef := False\<rparr>"
    using off by (rule handleImageClick_mode_off)
  obtain p' ms c r now' where g: "g = (p', ms, c, r, now')"
    by (cases g) auto
  show "annotations (run (clickEvents g) s) = annotations s"
    using off by (simp add: g run_gesture_mode_off)
next
  assume "annotationMode s \<and> isPlain g"
  then show "annotations (run (clickEvents g) s) = annotations s @ [pinOf (length (annotations s)) g]"
    by (simp add: run_plain_click)
next
  assume "\<not> isImageClick e"
  then show "(step e (s\<lparr>annotationMode := b\<rparr>))\<lparr>annotationMode := c\<rparr> = (step e s)\<lparr>annotationMode := c\<rparr>"
    by (simp add: step_mode_irrelevant)
qed

theorem annotationMode_gates_creation_witness:
  "\<not> annotationMode (run [ToggleAnnotationMode] init)
   \<and> annotations (run (clickEvents samplePlainClick) (run [ToggleAnnotationMode] init))
       = annotations (run [ToggleAnnotationMode] init)
   \<and> annotationMode init \<and> isPlain samplePlainClick
   \<and> annotations (run (clickEvents samplePlainClick) init)
       = annotations init @ [pinOf (length (annotations init)) samplePlainClick]
   \<and> \<not> isImageClick (MarkerClick 0 (0, 0))
   \<and> (step (MarkerClick 0 (0, 0)) ((run (clickEvents samplePlainClick) init)\<lparr>annotationMode := False\<rparr>))
         \<lparr>annotationMode := True\<rparr>
       = (step (MarkerClick 0 (0, 0)) (run (clickEvents samplePlainClick) init))\<lparr>annotationMode := True\<rparr>"
proof -
  have off: "\<not> annotationMode (run [ToggleAnnotationMode] init)"
    by (simp add: init_def)
  have on: "annotationMode init \<and> isPlain samplePlainClick"
    by (simp add: init_def samplePlainClick_def exceedsThreshold_def)
  have other: "\<not> isImageClick (MarkerClick 0 (0, 0))"
    by simp
  show ?thesis
    using off on other
      annotationMode_gates_creation
        [where s = "run [ToggleAnnotationMode] init" and g = samplePlainClick]
      annotationMode_gates_creation [where s = init and g = samplePlainClick]
      annotationMode_gates_creation
        [where s = "run (clickEvents samplePlainClick) init" and e = "MarkerClick 0 (0, 0)"
           and b = False and c = True]
    by blast
qed

section \<open>The comment panel\<close>

lemma count_list_filter:
  "count_list (filter P xs) a = (if P a then count_list xs a else 0)"
  by (induction xs) auto

text \<open>
  C7. The list the comment panel renders, \<open>commentsWithText\<close>, holds exactly the pins
  of the store whose text is not empty: it is a subsequence of the store (so the order of
  the store, which is the order of creation, is kept), none of its pins has the empty
  text, and every pin with a text occurs in it as often as in the store. This holds in
  every state, hence in every state a session reaches.
\<close>

theorem commentsWithText_exact:
  "subseq (commentsWithText s) (annotations s)
   \<and> list_all (\<lambda>a. ann_text a \<noteq> []) (commentsWithText s)
   \<and> (\<forall>a. count_list (commentsWithText s) a =
          (if ann_text a = [] then 0 else count_list (annotations s) a))"
  by (simp add: commentsWithText_def count_list_filter list_all_iff)

section \<open>Coordinates of a new pin\<close>

text \<open>
  C9. A click that passes the gate of \<open>handleImageClick\<close> appends one pin, whose
  coordinates are \<open>(pointerX - left) / width * 100\<close> and
  \<open>(pointerY - top) / height * 100\<close>, computed in double precision from the rectangle of
  the image at the time of the click. The stored number is the formula with each of its
  three operations rounded; where the divisor is not zero and the exact difference,
  quotient and percentage are in the safe range, it is a finite number within the
  relative error of three roundings of the exact value of the formula.
\<close>

theorem handleImageClick_coordinates:
  assumes "annotationMode s" "\<not> isDraggingRef s"
  shows "let s' = handleImageClick (px, py) (Some r) now s; new = last (annotations s') in
     annotations s' = annotations s @ [new]
     \<and> ann_x new = js_times100 (js_div (js_sub px (rect_left r)) (rect_width r))
     \<and> ann_y new = js_times100 (js_div (js_sub py (rect_top r)) (rect_height r))
     \<and> (rect_width r \<noteq> 0 \<and> safeRange (px - rect_left r)
          \<and> safeRange ((px - rect_left r) / rect_width r)
          \<and> safeRange ((px - rect_left r) / rect_width r * 100)
        \<longrightarrow> (\<exists>v. ann_x new = Num v
              \<and> \<bar>v - (px - rect_left r) / rect_width r * 100\<bar>
                  \<le> threeRoundings * \<bar>(px - rect_left r) / rect_width r * 100\<bar>))
     \<and> (rect_height r \<noteq> 0 \<and> safeRange (py - rect_top r)
          \<and> safeRange ((py - rect_top r) / rect_height r)
          \<and> safeRange ((py - rect_top r) / rect_height r * 100)
        \<longrightarrow> (\<exists>v. ann_y new = Num v
              \<and> \<bar>v - (py - rect_top r) / rect_height r * 100\<bar>
                  \<le> threeRoundings * \<bar>(py - rect_top r) / rect_height r * 100\<bar>))"
proof -
  let ?s' = "handleImageClick (px, py) (Some r) now s"
  let ?new = "newAnnotation (length (annotations s)) (px, py) r now"
  have store: "annotations ?s' = annotations s @ [?new]"
    using assms by (simp add: handleImageClick_def Let_def)
  have x: "ann_x ?new = js_times100 (js_div (js_sub px (rect_left r)) (rect_width r))"
    and y: "ann_y ?new = js_times100 (js_div (js_sub py (rect_top r)) (rect_height r))"
    by (simp_all add: newAnnotation_def Let_def)
  show ?thesis
    unfolding Let_def using store x y
      percent_accuracy [of "rect_width r" px "rect_left r"]
      percent_accuracy [of "rect_height r" py "rect_top r"]
    by simp
qed

theorem handleImageClick_coordinates_witness:
  "annotationMode init \<and> \<not> isDraggingRef init
   \<and> ann_x (last (annotations (handleImageClick (160, 90) (Some sampleRect) 1000 init))) = Num 30
   \<and> ann_y (last (annotations (handleImageClick (160, 90) (Some sampleRect) 1000 init))) = Num 40
   \<and> rect_width sampleRect \<noteq> 0 \<and> safeRange (107 - rect_left sampleRect)
   \<and> safeRange ((107 - rect_left sampleRect) / rect_width sampleRect)
   \<and> safeRange ((107 - rect_left sampleRect) / rect_width sampleRect * 100)
   \<and> rect_height sampleRect \<noteq> 0 \<and> safeRange (90 - rect_top sampleRect)
   \<and> safeRange ((90 - rect_top sampleRect) / rect_height sampleRect)
   \<and> safeRange ((90 - rect_top sampleRect) / rect_height sampleRect * 100)
   \<and> ann_x (last (annotations (handleImageClick (107, 90) (Some sampleRect) 1000 init)))
       = Num (7 / 2 + 1 / 2 ^ 51)
   \<and> \<bar>(7 / 2 + 1 / 2 ^ 51) - (107 - rect_left sampleRect) / rect_width sampleRect * 100\<bar>
       \<le> threeRoundings * \<bar>(107 - rect_left sampleRect) / rect_width sampleRect * 100\<bar>"
proof -
  have gate: "annotationMode init" "\<not> isDraggingRef init"
    by (simp_all add: init_def)
  have first: "ann_x (last (annotations (handleImageClick (160, 90) (Some sampleRect) 1000 init))) = Num 30
      \<and> ann_y (last (annotations (handleImageClick (160, 90) (Some sampleRect) 1000 init))) = Num 40"
    using handleImageClick_coordinates [OF gate, of 160 90 sampleRect 1000]
    by (simp add: Let_def sampleRect_def percent_160 percent_90)
  have safe_x: "rect_width sampleRect \<noteq> 0 \<and> safeRange (107 - rect_left sampleRect)
      \<and> safeRange ((107 - rect_left sampleRect) / rect_width sampleRect)
      \<and> safeRange ((107 - rect_left sampleRect) / rect_width sampleRect * 100)"
    by (simp add: sampleRect_def safeRange_def pow2_def)
  have safe_y: "rect_height sampleRect \<noteq> 0 \<and> safeRange (90 - rect_top sampleRect)
      \<and> safeRange ((90 - rect_top sampleRect) / rect_height sampleRect)
      \<and> safeRange ((90 - rect_top sampleRect) / rect_height sampleRect * 100)"
    by (simp add: sampleRect_def safeRange_def pow2_def)
  have stored: "ann_x (last (annotations (handleImageClick (107, 90) (Some sampleRect) 1000 init)))
      = Num (7 / 2 + 1 / 2 ^ 51)"
    using gate by (simp add: handleImageClick_def Let_def newAnnotation_107_90)
  have "\<exists>v. ann_x (last (annotations (handleImageClick (107, 90) (Some sampleRect) 1000 init))) = Num v
      \<and> \<bar>v - (107 - rect_left sampleRect) / rect_width sampleRect * 100\<bar>
          \<le> threeRoundings * \<bar>(107 - rect_left sampleRect) / rect_width sampleRect * 100\<bar>"
    using handleImageClick_coordinates [OF gate, of 107 90 sampleRect 1000] safe_x
    unfolding Let_def by blast
  then have bound: "\<bar>(7 / 2 + 1 / 2 ^ 51) - (107 - rect_left sampleRect) / rect_width sampleRect * 100\<bar>
      \<le> threeRoundings * \<bar>(107 - rect_left sampleRect) / rect_width sampleRect * 100\<bar>"
    unfolding stored by blast
  show ?thesis
    using gate first safe_x safe_y stored bound by blast
qed

section \<open>The pin under edit\<close>

text \<open>
  In every state a session reaches from the initial state, the pin under edit is a pin
  of the store, with the text the store holds for it: the selection is taken from the
  store and dropped by every handler that rewrites the store.
\<close>

lemma step_selectionInStore:
  assumes "selectionInStore s"
  shows "selectionInStore (step e s)"
proof (cases e)
  case (ImageClick p img now)
  then show ?thesis using assms
    by (auto simp: selectionInStore_def handleImageClick_def Let_def split: option.splits)
next
  case (MouseDown p img)
  then show ?thesis using assms
    by (auto simp: selectionInStore_def handleMouseDown_def split: option.splits)
next
  case (MouseMove p img)
  then show ?thesis using assms
    by (auto simp: selectionInStore_def handleMouseMove_def Let_def split: option.splits)
next
  case MouseUp
  then show ?thesis using assms
    by (auto simp: selectionInStore_def handleMouseUp_def split: option.splits)
next
  case (MarkerClick i corner)
  then show ?thesis using assms
    by (auto simp: selectionInStore_def handleMarkerClick_def split: option.splits)
next
  case (SetCommentText t)
  then show ?thesis using assms
    by (auto simp: selectionInStore_def split: option.splits)
next
  case (SaveComment now)
  then show ?thesis using assms
    by (auto simp: selectionInStore_def handleSaveComment_def closePopup_def split: option.splits)
next
  case Cancel
  then show ?thesis using assms
    by (auto simp: selectionInStore_def handleCancel_def closePopup_def split: option.splits)
next
  case (ListEntryClick i)
  then show ?thesis using assms
    by (auto simp: selectionInStore_def handleListClick_def split: option.splits)
next
  case ToggleAnnotationMode
  then show ?thesis using assms
    by (auto simp: selectionInStore_def split: option.splits)
next
  case OpenCommentsPanel
  then show ?thesis using assms
    by (auto simp: selectionInStore_def split: option.splits)
next
  case CloseCommentsPanel
  then show ?thesis using assms
    by (auto simp: selectionInStore_def split: option.splits)
next
  case (Elapse d)
  then show ?thesis using assms
    by (auto simp: selectionInStore_def elapse_def Let_def split: option.splits)
qed

lemma run_selectionInStore: "selectionInStore s \<Longrightarrow> selectionInStore (run es s)"
  by (induction es arbitrary: s) (simp_all add: step_selectionInStore)

lemma reachable_selection_in_store:
  assumes "selectedAnnotation (run es init) = Some a"
  shows "a \<in> set (annotations (run es init))"
proof -
  have "selectionInStore init"
    by (simp add: selectionInStore_def init_def)
  then have "selectionInStore (run es init)"
    by (rule run_selectionInStore)
  with assms show ?thesis
    by (simp add: selectionInStore_def)
qed

section \<open>Worked sessions\<close>

text \<open>The definitions that evaluate a session of concrete events.\<close>

lemmas eval_defs =
  init_def clickAt_def gesture_def run_append
  handleImageClick_def handleMouseDown_def handleMouseUp_def handleMouseMove_def
  handleMarkerClick_def handleSaveComment_def handleCancel_def handleListClick_def
  closePopup_def popupRendered_def commentsWithText_def elapse_def highlightDelay_def
  newAnnotation_160_90 newAnnotation_120_60 newAnnotation_130_70 Let_def

section \<open>Cancelling an edit\<close>

text \<open>
  C2, as stated, fails. One click creates pin 1 with the empty text and opens its editor;
  the user types \<open>abc\<close> and cancels. The stored text of the pin is still empty, yet the
  pin stays in the store: \<open>handleCancel\<close> removes it only when the draft in the editor is
  empty as well.
\<close>

theorem cancel_with_draft_keeps_textless_pin:
  "annotations (run (clickAt (160, 90) 1000 @ [SetCommentText ''abc'']) init) =
     [\<lparr>ann_id = 1, ann_x = Num 30, ann_y = Num 40, ann_text = [], ann_timestamp = 1000\<rparr>]
   \<and> selectedAnnotation (run (clickAt (160, 90) 1000 @ [SetCommentText ''abc'']) init) =
     Some \<lparr>ann_id = 1, ann_x = Num 30, ann_y = Num 40, ann_text = [], ann_timestamp = 1000\<rparr>
   \<and> annotations (run (clickAt (160, 90) 1000 @ [SetCommentText ''abc'', Cancel]) init) =
     [\<lparr>ann_id = 1, ann_x = Num 30, ann_y = Num 40, ann_text = [], ann_timestamp = 1000\<rparr>]"
  by (simp add: eval_defs)

lemma filter_other_ids:
  "distinct (map ann_id xs) \<Longrightarrow> a \<in> set xs \<Longrightarrow>
   filter (\<lambda>ann. ann_id ann \<noteq> ann_id a) xs = remove1 a xs"
proof (induction xs)
  case Nil
  then show ?case by simp
next
  case (Cons x xs)
  show ?case
  proof (cases "x = a")
    case True
    have "ann_id y \<noteq> ann_id a" if "y \<in> set xs" for y
      using Cons.prems(1) True that by (metis distinct.simps(2) image_eqI list.simps(9) set_map)
    then have "filter (\<lambda>ann. ann_id ann \<noteq> ann_id a) xs = xs"
      by (simp add: filter_id_conv)
    with True show ?thesis by simp
  next
    case False
    then have "a \<in> set xs" using Cons.prems(2) by simp
    moreover from this have "ann_id x \<noteq> ann_id a"
      using Cons.prems(1) by (metis distinct.simps(2) image_eqI list.simps(9) set_map)
    ultimately show ?thesis
      using Cons.IH Cons.prems(1) False by simp
  qed
qed

text \<open>
  C2, amended. Let a pin of the store be under edit, the ids of the store being pairwise
  distinct. Cancelling removes that pin, and nothing else, when its text is empty and
  the draft in the editor is empty too; otherwise (the pin has a text, or the draft is
  not empty) the store is unchanged. In every case the edit focus, the popup and the
  draft are cleared.
\<close>

theorem handleCancel_effect:
  assumes "selectedAnnotation s = Some a" "a \<in> set (annotations s)"
    "distinct (map ann_id (annotations s))"
  shows "annotations (handleCancel s) =
       (if ann_text a = [] \<and> commentText s = [] then remove1 a (annotations s) else annotations s)
     \<and> selectedAnnotation (handleCancel s) = None
     \<and> popupPosition (handleCancel s) = None
     \<and> commentText (handleCancel s) = []"
  using assms by (simp add: handleCancel_def closePopup_def filter_other_ids)

theorem handleCancel_effect_witness:
  "selectedAnnotation (run (clickAt (160, 90) 1000 @ clickAt (120, 60) 2000) init) =
     Some \<lparr>ann_id = 2, ann_x = Num 10, ann_y = Num 10, ann_text = [], ann_timestamp = 2000\<rparr>
   \<and> annotations (run (clickAt (160, 90) 1000 @ clickAt (120, 60) 2000) init) =
     [\<lparr>ann_id = 1, ann_x = Num 30, ann_y = Num 40, ann_text = [], ann_timestamp = 1000\<rparr>,
      \<lparr>ann_id = 2, ann_x = Num 10, ann_y = Num 10, ann_text = [], ann_timestamp = 2000\<rparr>]
   \<and> annotations (handleCancel (run (clickAt (160, 90) 1000 @ clickAt (120, 60) 2000) init)) =
     [\<lparr>ann_id = 1, ann_x = Num 30, ann_y = Num 40, ann_text = [], ann_timestamp = 1000\<rparr>]
   \<and> selectedAnnotation (handleCancel (run (clickAt (160, 90) 1000 @ clickAt (120, 60) 2000) init)) = None
   \<and> popupPosition (handleCancel (run (clickAt (160, 90) 1000 @ clickAt (120, 60) 2000) init)) = None"
proof -
  let ?s = "run (clickAt (160, 90) 1000 @ clickAt (120, 60) 2000) init"
  let ?p1 = "\<lparr>ann_id = 1, ann_x = Num 30, ann_y = Num 40, ann_text = [], ann_timestamp = 1000\<rparr>"
  let ?p2 = "\<lparr>ann_id = 2, ann_x = Num 10, ann_y = Num 10, ann_text = [], ann_timestamp = 2000\<rparr>"
  have sel: "selectedAnnotation ?s = Some ?p2"
    by (simp add: eval_defs)
  have store: "annotations ?s = [?p1, ?p2]"
    by (simp add: eval_defs)
  have draft: "commentText ?s = []"
    by (simp add: eval_defs)
  have mem: "?p2 \<in> set (annotations ?s)"
    by (simp add: store)
  have dist: "distinct (map ann_id (annotations ?s))"
    by (simp add: store)
  from handleCancel_effect [OF sel mem dist] show ?thesis
    by (simp add: sel store draft)
qed

section \<open>Saving a comment\<close>

text \<open>
  C3, as stated, fails. One click at time 1000 creates pin 1 with the empty text; saving
  the empty draft at time 5000 leaves the text empty and moves the timestamp of the pin
  from 1000 to 5000.
\<close>

theorem save_of_empty_text_changes_timestamp:
  "annotations (run (clickAt (160, 90) 1000) init) =
     [\<lparr>ann_id = 1, ann_x = Num 30, ann_y = Num 40, ann_text = [], ann_timestamp = 1000\<rparr>]
   \<and> annotations (run (clickAt (160, 90) 1000 @ [SaveComment 5000]) init) =
     [\<lparr>ann_id = 1, ann_x = Num 30, ann_y = Num 40, ann_text = [], ann_timestamp = 5000\<rparr>]"
  by (simp add: eval_defs)

text \<open>
  C3, amended. Saving replaces the text of the pin under edit by the draft, whatever the
  draft is, and keeps the pin at its position. The timestamp becomes the time of the save
  exactly when the text of the pin was empty before the save (also when the draft that is
  saved is empty); a pin that already had a text keeps its timestamp.
\<close>

theorem handleSaveComment_target:
  assumes "selectedAnnotation s = Some a" "i < length (annotations s)" "annotations s ! i = a"
  shows "length (annotations (handleSaveComment now s)) = length (annotations s)
     \<and> annotations (handleSaveComment now s) ! i =
         a\<lparr>ann_text := commentText s,
           ann_timestamp := (if ann_text a = [] then now else ann_timestamp a)\<rparr>"
  using assms by (simp add: handleSaveComment_def closePopup_def)

theorem handleSaveComment_target_witness:
  "selectedAnnotation (run (clickAt (160, 90) 1000 @ [SetCommentText ''abc'']) init) =
     Some \<lparr>ann_id = 1, ann_x = Num 30, ann_y = Num 40, ann_text = [], ann_timestamp = 1000\<rparr>
   \<and> (0::nat) < length (annotations (run (clickAt (160, 90) 1000 @ [SetCommentText ''abc'']) init))
   \<and> annotations (run (clickAt (160, 90) 1000 @ [SetCommentText ''abc'']) init) ! 0 =
     \<lparr>ann_id = 1, ann_x = Num 30, ann_y = Num 40, ann_text = [], ann_timestamp = 1000\<rparr>
   \<and> annotations (handleSaveComment 5000 (run (clickAt (160, 90) 1000 @ [SetCommentText ''abc'']) init)) ! 0 =
     \<lparr>ann_id = 1, ann_x = Num 30, ann_y = Num 40, ann_text = ''abc'', ann_timestamp = 5000\<rparr>"
proof -
  let ?s = "run (clickAt (160, 90) 1000 @ [SetCommentText ''abc'']) init"
  let ?p1 = "\<lparr>ann_id = 1, ann_x = Num 30, ann_y = Num 40, ann_text = [], ann_timestamp = 1000\<rparr>"
  have sel: "selectedAnnotation ?s = Some ?p1"
    by (simp add: eval_defs)
  have store: "annotations ?s = [?p1]"
    by (simp add: eval_defs)
  have draft: "commentText ?s = ''abc''"
    by (simp add: eval_defs)
  have idx: "0 < length (annotations ?s)" and at: "annotations ?s ! 0 = ?p1"
    by (simp_all add: store)
  from handleSaveComment_target [OF sel idx at, of 5000] show ?thesis
    by (simp add: sel store draft)
qed

section \<open>The highlight\<close>

text \<open>
  C8, as stated, fails. With two commented pins, the entry of pin 1 is selected, the
  entry of pin 2 is selected 1500 ms later, and 500 ms after that the timer of the first
  selection runs and clears the highlight of pin 2, which has lasted a quarter of its
  delay: no handler cancels a pending timer.
\<close>

theorem newer_highlight_cleared_by_older_timer:
  "highlightedId (run (sessionTwoComments @ [ListEntryClick 0, Elapse 1500, ListEntryClick 1]) init) = Some 2
   \<and> highlightedId (run (sessionTwoComments @ [ListEntryClick 0, Elapse 1500, ListEntryClick 1, Elapse 500]) init) = None"
  by (simp add: sessionTwoComments_def eval_defs)

text \<open>
  C8, amended. Selecting an entry of the comment list highlights the pin of that entry,
  and no pin with another id is highlighted afterwards (there is one \<open>highlightedId\<close>).
  Every selection schedules its own clear 2000 ms later and no pending clear is ever
  cancelled: \<open>d\<close> ms after the selection, no other event in between, the highlight is gone
  if \<open>d\<close> has reached 2000 or if a clear scheduled by an earlier selection has fallen due,
  and it is still on the selected pin otherwise.
\<close>

theorem handleListClick_highlight:
  "isHighlighted (handleListClick a s) a
   \<and> (\<forall>b. ann_id b \<noteq> ann_id a \<longrightarrow> \<not> isHighlighted (handleListClick a s) b)
   \<and> highlightedId (elapse d (handleListClick a s)) =
       (if highlightDelay \<le> d \<or> list_ex (\<lambda>due. due \<le> clock s + d) (timers s)
        then None else Some (ann_id a))"
  by (simp add: isHighlighted_def handleListClick_def elapse_def Let_def)

theorem handleListClick_highlight_witness:
  "ann_id (pinOf 0 samplePlainClick) \<noteq> ann_id (pinOf 1 samplePlainClick)
   \<and> isHighlighted (handleListClick (pinOf 1 samplePlainClick) init) (pinOf 1 samplePlainClick)
   \<and> \<not> isHighlighted (handleListClick (pinOf 1 samplePlainClick) init) (pinOf 0 samplePlainClick)
   \<and> highlightedId (elapse 1999 (handleListClick (pinOf 1 samplePlainClick) init)) = Some 2
   \<and> highlightedId (elapse 2000 (handleListClick (pinOf 1 samplePlainClick) init)) = None"
proof -
  have ids: "ann_id (pinOf 0 samplePlainClick) \<noteq> ann_id (pinOf 1 samplePlainClick)"
    by (simp add: ann_id_pinOf)
  show ?thesis
    using ids
      handleListClick_highlight [of "pinOf 1 samplePlainClick" init 1999]
      handleListClick_highlight [of "pinOf 1 samplePlainClick" init 2000]
    by (simp add: ann_id_pinOf highlightDelay_def init_def)
qed

section \<open>Ids after a deletion\<close>

text \<open>
  C1. The claim asks for an id one above the largest id ever assigned, never an id
  already used. \<open>handleImageClick\<close> assigns the length of the store plus one. In the
  first session pin 2 is deleted and pin 1 remains: the next click assigns 2 again, not
  3. In the second session pin 1 is deleted and pin 2 remains: the next click assigns 2,
  the id of a pin that is still in the store.
\<close>

theorem next_id_reuses_deleted_id:
  "map ann_id (annotations (run sessionCancelSecond init)) = [1]
   \<and> map ann_id (annotations (run (sessionCancelSecond @ clickAt (130, 70) 3000) init)) = [1, 2]
   \<and> map ann_id (annotations (run sessionCancelFirst init)) = [2]
   \<and> map ann_id (annotations (run (sessionCancelFirst @ clickAt (130, 70) 3000) init)) = [2, 2]"
  by (simp add: sessionCancelSecond_def sessionCancelFirst_def eval_defs)

section \<open>What the operations leave untouched\<close>

text \<open>
  Every event leaves the store as it is, or appends one pin, or maps it by a function
  that keeps \<open>id\<close>, \<open>x\<close> and \<open>y\<close>, or filters it: the pins that survive keep these
  three fields and their relative order.
\<close>

lemma step_store_shape:
  "annotations (step e s) = annotations s
   \<or> (\<exists>new. annotations (step e s) = annotations s @ [new])
   \<or> (\<exists>f. (\<forall>a. ann_id (f a) = ann_id a \<and> ann_x (f a) = ann_x a \<and> ann_y (f a) = ann_y a)
          \<and> annotations (step e s) = map f (annotations s))
   \<or> (\<exists>P. annotations (step e s) = filter P (annotations s))"
proof (cases e)
  case (ImageClick p img now)
  then show ?thesis
    by (simp add: handleImageClick_def Let_def split: option.splits)
next
  case (MouseDown p img)
  then show ?thesis by (simp add: handleMouseDown_def)
next
  case (MouseMove p img)
  then show ?thesis by (simp add: handleMouseMove_def Let_def split: option.splits)
next
  case MouseUp
  then show ?thesis by (simp add: handleMouseUp_def)
next
  case (MarkerClick i corner)
  then show ?thesis by (simp add: handleMarkerClick_def)
next
  case (SetCommentText t)
  then show ?thesis by simp
next
  case (SaveComment now)
  show ?thesis
  proof (cases "popupRendered s")
    case False
    with SaveComment show ?thesis by simp
  next
    case True
    then obtain sel where sel: "selectedAnnotation s = Some sel"
      by (auto simp: popupRendered_def)
    let ?f = "\<lambda>ann. if ann_id ann = ann_id sel
                 then ann\<lparr>ann_text := commentText s,
                        ann_timestamp := (if ann_text ann \<noteq> [] then ann_timestamp ann else now)\<rparr>
                 else ann"
    have "annotations (step e s) = map ?f (annotations s)"
      using SaveComment True sel by (simp add: handleSaveComment_def closePopup_def)
    then have "\<exists>f. (\<forall>a. ann_id (f a) = ann_id a \<and> ann_x (f a) = ann_x a \<and> ann_y (f a) = ann_y a)
        \<and> annotations (step e s) = map f (annotations s)"
      by (intro exI [of _ ?f]) simp
    then show ?thesis by (iprover intro: disjI1 disjI2)
  qed
next
  case Cancel
  show ?thesis
  proof (cases "popupRendered s")
    case False
    with Cancel show ?thesis by simp
  next
    case True
    then obtain sel where sel: "selectedAnnotation s = Some sel"
      by (auto simp: popupRendered_def)
    have "annotations (step e s) = annotations s
        \<or> annotations (step e s) = filter (\<lambda>ann. ann_id ann \<noteq> ann_id sel) (annotations s)"
      using Cancel True sel by (simp add: handleCancel_def closePopup_def)
    then show ?thesis by blast
  qed
next
  case (ListEntryClick i)
  then show ?thesis by (simp add: handleListClick_def)
next
  case ToggleAnnotationMode
  then show ?thesis by simp
next
  case OpenCommentsPanel
  then show ?thesis by simp
next
  case CloseCommentsPanel
  then show ?thesis by simp
next
  case (Elapse d)
  then show ?thesis by (simp add: elapse_def Let_def)
qed

text \<open>
  C10. The claim adds that saving changes the targeted pin only and that cancelling
  removes the edited pin or nothing. Both handlers find their pin by its id, and ids
  repeat once a pin other than the last has been deleted (the second session above).
  There the store holds the commented pin 2 and a fresh pin 2 under edit: cancelling the
  edit of the fresh pin empties the store, and saving the draft \<open>c\<close> instead rewrites the
  text of the older pin as well.
\<close>

theorem cancel_removes_every_pin_of_that_id:
  "annotations (run (sessionCancelFirst @ clickAt (130, 70) 3000) init) =
     [\<lparr>ann_id = 2, ann_x = Num 10, ann_y = Num 10, ann_text = ''b'', ann_timestamp = 2500\<rparr>,
      \<lparr>ann_id = 2, ann_x = Num 15, ann_y = Num 20, ann_text = [], ann_timestamp = 3000\<rparr>]
   \<and> selectedAnnotation (run (sessionCancelFirst @ clickAt (130, 70) 3000) init) =
     Some \<lparr>ann_id = 2, ann_x = Num 15, ann_y = Num 20, ann_text = [], ann_timestamp = 3000\<rparr>
   \<and> annotations (run (sessionCancelFirst @ clickAt (130, 70) 3000 @ [Cancel]) init) = []
   \<and> annotations (run (sessionCancelFirst @ clickAt (130, 70) 3000 @ [SetCommentText ''c'', SaveComment 3500]) init) =
     [\<lparr>ann_id = 2, ann_x = Num 10, ann_y = Num 10, ann_text = ''c'', ann_timestamp = 2500\<rparr>,
      \<lparr>ann_id = 2, ann_x = Num 15, ann_y = Num 20, ann_text = ''c'', ann_timestamp = 3500\<rparr>]"
  by (simp add: sessionCancelFirst_def eval_defs)

end
